theory Spec2Isabelle
  imports Main "HOL-Library.Word"
begin

section \<open>Shared data\<close>

text \<open>
  A \<open>char\<close> / \<open>unsigned char\<close> is an 8-bit word. The C++ \<open>int\<close> fields (sequence
  numbers, counters) are modelled as integers: signed overflow is undefined behaviour in
  C++, and the development covers the executions in which the counters stay in range.
\<close>

type_synonym byte = "8 word"

text \<open>
  A name component as the handlers read it: \<open>toUri()\<close> is compared with the literal
  \<open>heartbeat\<close>, \<open>toSequenceNumber()\<close> yields the number of a sequence-number
  component and throws on any other component.
\<close>

datatype Component = Generic string | SequenceNumber int

type_synonym Name = "Component list"

datatype error =
    NotSequenceNumber    \<comment> \<open>\<open>toSequenceNumber()\<close> throws\<close>
  | BufferOverrun        \<comment> \<open>\<open>memcpy\<close> of more than 30 bytes into \<open>char buffer[30]\<close>\<close>
  | MessageOutOfRange    \<comment> \<open>\<open>message[i]\<close> written with \<open>message.size() < 3\<close>\<close>

section \<open>Producer side: Controller (src/unnamed/part_001)\<close>

text \<open>\<open>struct MIDIMessage { char data[3]; }\<close>\<close>

type_synonym MIDIMessage = "byte \<times> byte \<times> byte"

fun data :: "MIDIMessage \<Rightarrow> byte list" where
  "data (b0, b1, b2) = [b0, b1, b2]"

definition MAX_HEARTBEAT_PROBE :: int where
  "MAX_HEARTBEAT_PROBE = 3"

text \<open>
  The fields of \<open>Controller\<close>. The face is an external collaborator; what the
  controller hands to it is logged: \<open>put_data\<close> holds the data packets given to
  \<open>m_face.put\<close> (name and content), \<open>hb_expressed\<close> the nonces of the heartbeat
  interests given to \<open>m_face.expressInterest\<close>, both in call order.
\<close>

record Controller =
  m_connGood :: bool
  m_inputQueue :: "MIDIMessage list"
  m_interestQueue :: "Name list"
  m_maxSeqNo :: int
  m_hbCount :: int
  heartbeatNonce :: int
  put_data :: "(Name \<times> byte list) list"
  hb_expressed :: "int list"

text \<open>\<open>Controller::addInput(MIDIMessage msg)\<close>: \<open>m_inputQueue.push_back(msg)\<close>.\<close>

definition addInput :: "MIDIMessage \<Rightarrow> Controller \<Rightarrow> Controller" where
  "addInput msg c = c\<lparr>m_inputQueue := m_inputQueue c @ [msg]\<rparr>"

text \<open>
  \<open>Controller::addInput(std::string msg)\<close>: the first three characters, padded with
  zero bytes.
\<close>

definition addInput_string :: "byte list \<Rightarrow> Controller \<Rightarrow> Controller" where
  "addInput_string msg c =
     addInput (if 0 \<ge> length msg then 0 else msg ! 0,
               if 1 \<ge> length msg then 0 else msg ! 1,
               if 2 \<ge> length msg then 0 else msg ! 2) c"

text \<open>\<open>Controller::sendData\<close>: one data packet, named as the interest, put on the face.\<close>

definition sendData :: "Name \<Rightarrow> byte list \<Rightarrow> Controller \<Rightarrow> Controller" where
  "sendData dataName buf c = c\<lparr>put_data := put_data c @ [(dataName, buf)]\<rparr>"

text \<open>
  The batching loop of \<open>replyInterest\<close>:
  \<^verbatim>\<open>while (!m_inputQueue.empty() && midiBufSize < 10) {
       midiBuf[midiBufSize] = m_inputQueue.front(); m_inputQueue.pop_front(); midiBufSize++; }\<close>
  The first argument is \<open>m_inputQueue\<close>, the second the filled part of \<open>midiBuf\<close>
  (\<open>midiBufSize\<close> is its length).
\<close>

fun fillMidiBuf :: "MIDIMessage list \<Rightarrow> MIDIMessage list \<Rightarrow> MIDIMessage list \<times> MIDIMessage list" where
  "fillMidiBuf [] midiBuf = ([], midiBuf)"
| "fillMidiBuf (m # q) midiBuf =
     (if length midiBuf < 10 then fillMidiBuf q (midiBuf @ [m]) else (m # q, midiBuf))"

text \<open>\<open>Controller::replyInterest\<close>, one call (the output thread calls it forever).\<close>

definition replyInterest :: "Controller \<Rightarrow> Controller" where
  "replyInterest c =
     (let c1 = (if \<not> m_connGood c then c\<lparr>m_inputQueue := [], m_interestQueue := []\<rparr> else c)
      in if m_inputQueue c1 \<noteq> [] \<and> m_interestQueue c1 \<noteq> [] then
           (case fillMidiBuf (m_inputQueue c1) [] of
              (q, midiBuf) \<Rightarrow>
                (case m_interestQueue c1 of
                   [] \<Rightarrow> c1
                 | interestName # rest \<Rightarrow>
                     sendData interestName (concat (map data midiBuf))
                       (c1\<lparr>m_inputQueue := q, m_interestQueue := rest\<rparr>)))
         else c1)"

text \<open>\<open>Controller::requestNext\<close>: one heartbeat interest, then \<open>heartbeatNonce++\<close>.\<close>

definition Controller_requestNext :: "Controller \<Rightarrow> Controller" where
  "Controller_requestNext c =
     c\<lparr>hb_expressed := hb_expressed c @ [heartbeatNonce c],
       heartbeatNonce := heartbeatNonce c + 1\<rparr>"

text \<open>One iteration of the \<open>while (true)\<close> loop of \<open>Controller::sendHeartbeat\<close>.\<close>

definition sendHeartbeat_step :: "Controller \<Rightarrow> Controller" where
  "sendHeartbeat_step c =
     (let c1 = c\<lparr>m_hbCount := m_hbCount c + 1\<rparr>;
          c2 = Controller_requestNext c1
      in if m_hbCount c2 > MAX_HEARTBEAT_PROBE \<and> m_connGood c2
         then c2\<lparr>m_connGood := False\<rparr> else c2)"

section \<open>Consumer side: PlaybackModule (src/unnamed/part_000)\<close>

definition PREWARM_AMOUNT :: nat where
  "PREWARM_AMOUNT = 5"

definition MAX_INACTIVE_TIME :: int where
  "MAX_INACTIVE_TIME = 5"

record MIDIControlBlock =
  minSeqNo :: int
  maxSeqNo :: int
  inactiveTime :: int

text \<open>
  What the handlers read of a packet. Of an interest: the last name component and the
  URI of the component before it (\<open>get(-2)\<close>, the remote name). Of a data packet: the
  last name component, the URI of \<open>get(-4)\<close> (the remote name) and the content bytes.
\<close>

record Interest =
  i_last :: Component
  i_remote :: string

record Data =
  d_last :: Component
  d_remote :: string
  d_content :: "byte list"

text \<open>
  The fields of \<open>PlaybackModule\<close>: the table \<open>m_lookup\<close> and the vector \<open>message\<close>.
  What the module hands to its collaborators is logged in call order: \<open>expressed\<close>
  holds the data interests given to \<open>m_face.expressInterest\<close> (remote name and
  sequence number), \<open>sent_midi\<close> the messages given to \<open>midiout->sendMessage\<close>,
  \<open>put_accepted\<close> the interests answered with an \<open>ACCEPTED\<close> packet.
\<close>

record PlaybackModule =
  m_lookup :: "string \<rightharpoonup> MIDIControlBlock"
  message :: "byte list"
  expressed :: "(string \<times> int) list"
  sent_midi :: "byte list list"
  put_accepted :: "Interest list"

text \<open>
  \<open>PlaybackModule::requestNext\<close>: nothing for an unknown remote; otherwise one
  interest for \<open>maxSeqNo\<close>, then \<open>maxSeqNo++\<close>.
\<close>

definition requestNext :: "string \<Rightarrow> PlaybackModule \<Rightarrow> PlaybackModule" where
  "requestNext remoteName s =
     (case m_lookup s remoteName of
        None \<Rightarrow> s
      | Some cb \<Rightarrow>
          let nextSeqNo = maxSeqNo cb
          in s\<lparr>expressed := expressed s @ [(remoteName, nextSeqNo)],
               m_lookup := (m_lookup s)(remoteName \<mapsto> cb\<lparr>maxSeqNo := maxSeqNo cb + 1\<rparr>)\<rparr>)"

text \<open>
  \<open>PlaybackModule::onInterest\<close>. Only a name ending in \<open>heartbeat\<close> is handled. A known
  remote (\<open>isHeartbeat\<close>) gets \<open>inactiveTime = 0\<close>; an unknown one gets the block
  \<open>{0,0}\<close> (the third field is value-initialised to 0). Both are answered, and only
  the new one is prewarmed with \<open>PREWARM_AMOUNT\<close> calls of \<open>requestNext\<close>.
\<close>

definition onInterest :: "Interest \<Rightarrow> PlaybackModule \<Rightarrow> PlaybackModule" where
  "onInterest interest s =
     (if i_last interest \<noteq> Generic ''heartbeat'' then s
      else
        let remoteName = i_remote interest
        in (case m_lookup s remoteName of
              Some cb \<Rightarrow>
                let s1 = s\<lparr>m_lookup := (m_lookup s)(remoteName \<mapsto> cb\<lparr>inactiveTime := 0\<rparr>)\<rparr>
                in s1\<lparr>put_accepted := put_accepted s1 @ [interest]\<rparr>
            | None \<Rightarrow>
                let s1 = s\<lparr>m_lookup := (m_lookup s)(remoteName \<mapsto>
                            \<lparr>minSeqNo = 0, maxSeqNo = 0, inactiveTime = 0\<rparr>)\<rparr>;
                    s2 = s1\<lparr>put_accepted := put_accepted s1 @ [interest]\<rparr>
                in (requestNext remoteName ^^ PREWARM_AMOUNT) s2))"

text \<open>
  The playback loop of \<open>onData\<close>, from iteration \<open>j\<close> on:
  \<^verbatim>\<open>for (int j = 0; j < dataSize/3; ++j) {
       for (int i = 0; i < 3; ++i) this->message[i] = (unsigned char)buffer[i+(j*3)];
       if (this->message.size()==3) this->midiout->sendMessage(&this->message);
       if (buffer[0] == 0 && buffer[1] == 0 && buffer[2] == 0) {
         m_lookup.erase(remoteName); return; } }\<close>
  The result is \<open>True\<close> with the state when the loop returned from \<open>onData\<close>, \<open>False\<close>
  when it ran to its end. \<open>isShutdown\<close> is the test for the shutdown message; it reads
  the first three bytes of the buffer in every iteration.
\<close>

definition isShutdown :: "byte list \<Rightarrow> bool" where
  "isShutdown buffer = (buffer ! 0 = 0 \<and> buffer ! 1 = 0 \<and> buffer ! 2 = 0)"

function playLoop :: "string \<Rightarrow> byte list \<Rightarrow> nat \<Rightarrow> PlaybackModule \<Rightarrow> error + bool \<times> PlaybackModule" where
  "playLoop remoteName buffer j s =
     (if j < length buffer div 3 then
        (if length (message s) < 3 then Inl MessageOutOfRange
         else
           let s1 = s\<lparr>message := (message s)
                        [0 := buffer ! (0 + j * 3), 1 := buffer ! (1 + j * 3), 2 := buffer ! (2 + j * 3)]\<rparr>;
               s2 = (if length (message s1) = 3
                     then s1\<lparr>sent_midi := sent_midi s1 @ [message s1]\<rparr> else s1)
           in if isShutdown buffer
              then Inr (True, s2\<lparr>m_lookup := (m_lookup s2)(remoteName := None)\<rparr>)
              else playLoop remoteName buffer (Suc j) s2)
      else Inr (False, s))"
  by pat_completeness auto
termination
  by (relation "measure (\<lambda>(remoteName, buffer, j, s). length buffer div 3 - j)") auto

declare playLoop.simps [simp del]

text \<open>
  \<open>PlaybackModule::onData\<close>. A name ending in \<open>heartbeat\<close> is ignored; the sequence
  number is read before the table is looked up; the content is copied into
  \<open>char buffer[30]\<close> before the window is checked. A packet is dropped when
  \<open>cb.minSeqNo > seqNo\<close> or \<open>cb.maxSeqNo < seqNo\<close>. Otherwise \<open>minSeqNo\<close> advances by
  \<open>diff\<close>, the units are played, and unless the loop returned, \<open>requestNext\<close> is called
  \<open>diff\<close> times.
\<close>

definition onData :: "Data \<Rightarrow> PlaybackModule \<Rightarrow> error + PlaybackModule" where
  "onData d s =
     (if d_last d = Generic ''heartbeat'' then Inr s
      else
        (case d_last d of
           Generic u \<Rightarrow> Inl NotSequenceNumber
         | SequenceNumber seqNo \<Rightarrow>
             let remoteName = d_remote d
             in (case m_lookup s remoteName of
                   None \<Rightarrow> Inr s
                 | Some cb \<Rightarrow>
                     let dataSize = length (d_content d)
                     in if dataSize > 30 then Inl BufferOverrun
                        else if minSeqNo cb > seqNo then Inr s
                        else if maxSeqNo cb < seqNo then Inr s
                        else
                          let diff = seqNo - minSeqNo cb + 1;
                              s1 = s\<lparr>m_lookup := (m_lookup s)(remoteName \<mapsto>
                                        cb\<lparr>minSeqNo := minSeqNo cb + diff\<rparr>)\<rparr>
                          in (case playLoop remoteName (d_content d) 0 s1 of
                                Inl e \<Rightarrow> Inl e
                              | Inr (returned, s2) \<Rightarrow>
                                  if returned then Inr s2
                                  else Inr ((requestNext remoteName ^^ nat diff) s2)))))"

text \<open>
  One iteration of the \<open>while (true)\<close> loop of \<open>controlBlockMonitoring\<close>: the first
  loop increments every \<open>inactiveTime\<close> and collects in \<open>rmList\<close> the names whose
  counter is then above \<open>MAX_INACTIVE_TIME\<close>; the second loop erases them.
\<close>

definition incrementAll :: "(string \<rightharpoonup> MIDIControlBlock) \<Rightarrow> (string \<rightharpoonup> MIDIControlBlock)" where
  "incrementAll m =
     (\<lambda>remoteName. map_option (\<lambda>cb. cb\<lparr>inactiveTime := inactiveTime cb + 1\<rparr>) (m remoteName))"

definition in_rmList :: "(string \<rightharpoonup> MIDIControlBlock) \<Rightarrow> string \<Rightarrow> bool" where
  "in_rmList m remoteName =
     (case m remoteName of None \<Rightarrow> False | Some cb \<Rightarrow> inactiveTime cb > MAX_INACTIVE_TIME)"

definition controlBlockMonitoring_step :: "PlaybackModule \<Rightarrow> PlaybackModule" where
  "controlBlockMonitoring_step s =
     (let m1 = incrementAll (m_lookup s)
      in s\<lparr>m_lookup := (\<lambda>remoteName. if in_rmList m1 remoteName then None else m1 remoteName)\<rparr>)"

text \<open>
  The operations on a module, as the event loop and the monitor thread apply them one
  after the other, and a run of them. A run stops at the first failed operation.
\<close>

datatype operation =
    OnInterest Interest
  | OnData Data
  | RequestNext string
  | SweepTick

fun step :: "PlaybackModule \<Rightarrow> operation \<Rightarrow> error + PlaybackModule" where
  "step s (OnInterest interest) = Inr (onInterest interest s)"
| "step s (OnData d) = onData d s"
| "step s (RequestNext remoteName) = Inr (requestNext remoteName s)"
| "step s SweepTick = Inr (controlBlockMonitoring_step s)"

fun run :: "PlaybackModule \<Rightarrow> operation list \<Rightarrow> error + PlaybackModule" where
  "run s [] = Inr s"
| "run s (x # xs) = (case step s x of Inl e \<Rightarrow> Inl e | Inr s' \<Rightarrow> run s' xs)"

text \<open>
  The module when the event loop starts: an empty table, and the three-element
  \<open>message\<close> that \<open>main\<close> has built and last set to \<open>{144, 64, 0}\<close>.
\<close>

definition initial :: PlaybackModule where
  "initial = \<lparr>m_lookup = Map.empty, message = [144, 64, 0], expressed = [],
              sent_midi = [], put_accepted = []\<rparr>"

text \<open>
  The complete three-byte units of a buffer, as the playback loop indexes them:
  unit \<open>j\<close> is \<open>buffer[0+j*3], buffer[1+j*3], buffer[2+j*3]\<close>, for \<open>j < dataSize/3\<close>.
\<close>

definition unit_at :: "byte list \<Rightarrow> nat \<Rightarrow> byte list" where
  "unit_at buffer j = [buffer ! (0 + j * 3), buffer ! (1 + j * 3), buffer ! (2 + j * 3)]"

definition units :: "byte list \<Rightarrow> byte list list" where
  "units buffer = map (unit_at buffer) [0..<length buffer div 3]"

text \<open>
  The property of a table that every run from the empty table keeps: in every block
  the window is ordered and the inactivity counter lies between 0 and
  \<open>MAX_INACTIVE_TIME\<close>.
\<close>

definition table_ok :: "(string \<rightharpoonup> MIDIControlBlock) \<Rightarrow> bool" where
  "table_ok m =
     (\<forall>r cb. m r = Some cb \<longrightarrow>
        minSeqNo cb \<le> maxSeqNo cb \<and> 0 \<le> inactiveTime cb \<and> inactiveTime cb \<le> MAX_INACTIVE_TIME)"

text \<open>A heartbeat interest of the remote \<open>r\<close>: the one operation that resets its counter.\<close>

fun heartbeat_of :: "string \<Rightarrow> operation \<Rightarrow> bool" where
  "heartbeat_of r (OnInterest i) = (i_last i = Generic ''heartbeat'' \<and> i_remote i = r)"
| "heartbeat_of r (OnData d) = False"
| "heartbeat_of r (RequestNext r') = False"
| "heartbeat_of r SweepTick = False"

section \<open>Concrete inputs\<close>

text \<open>
  The first heartbeat interest of the remote \<open>peerA\<close>, the module after accepting it,
  the same module after two sweep ticks, and a data packet of \<open>peerA\<close> with a given
  sequence number and content.
\<close>

definition heartbeat_peerA :: Interest where
  "heartbeat_peerA = \<lparr>i_last = Generic ''heartbeat'', i_remote = ''peerA''\<rparr>"

definition accepted_peerA :: PlaybackModule where
  "accepted_peerA = onInterest heartbeat_peerA initial"

definition idle_peerA :: PlaybackModule where
  "idle_peerA = controlBlockMonitoring_step (controlBlockMonitoring_step accepted_peerA)"

definition response :: "int \<Rightarrow> byte list \<Rightarrow> Data" where
  "response seqNo bytes = \<lparr>d_last = SequenceNumber seqNo, d_remote = ''peerA'', d_content = bytes\<rparr>"

text \<open>
  What is looked at after a handler has run: the block of a remote, the interests
  expressed and the messages sent to the device.
\<close>

definition observe ::
  "string \<Rightarrow> error + PlaybackModule \<Rightarrow>
   error + MIDIControlBlock option \<times> (string \<times> int) list \<times> byte list list" where
  "observe remoteName res =
     (case res of
        Inl e \<Rightarrow> Inl e
      | Inr s \<Rightarrow> Inr (m_lookup s remoteName, expressed s, sent_midi s))"

text \<open>
  Two controllers: one that is connected, has three heartbeat probes unanswered and
  holds one queued message and one queued interest; and one that is not connected and
  holds nothing.
\<close>

definition probing :: Controller where
  "probing = \<lparr>m_connGood = True, m_inputQueue = [(144, 64, 90)],
              m_interestQueue = [[Generic ''peerA'', SequenceNumber 7]],
              m_maxSeqNo = 8, m_hbCount = 3, heartbeatNonce = 20, put_data = [],
              hb_expressed = []\<rparr>"

definition disconnected :: Controller where
  "disconnected = \<lparr>m_connGood = False, m_inputQueue = [], m_interestQueue = [],
                   m_maxSeqNo = 0, m_hbCount = 0, heartbeatNonce = 0, put_data = [],
                   hb_expressed = []\<rparr>"

section \<open>Properties of the Controller\<close>

lemma fillMidiBuf_eq:
  "fillMidiBuf q midiBuf =
     (drop (10 - length midiBuf) q, midiBuf @ take (10 - length midiBuf) q)"
proof (induction q arbitrary: midiBuf)
  case Nil
  show ?case by simp
next
  case (Cons m q)
  show ?case
  proof (cases "length midiBuf < 10")
    case True
    then have "10 - length midiBuf = Suc (10 - length (midiBuf @ [m]))" by simp
    with True Cons show ?thesis by simp
  next
    case False
    then show ?thesis by simp
  qed
qed

lemma length_concat_data: "length (concat (map data ms)) = 3 * length ms"
  by (induction ms) auto

lemma replyInterest_disconnected:
  "\<not> m_connGood c \<Longrightarrow> replyInterest c = c\<lparr>m_inputQueue := [], m_interestQueue := []\<rparr>"
  by (simp add: replyInterest_def)

lemma replyInterest_emits:
  assumes "m_connGood c" "m_inputQueue c \<noteq> []" "m_interestQueue c = n # rest"
  shows "replyInterest c =
           c\<lparr>m_inputQueue := drop 10 (m_inputQueue c), m_interestQueue := rest,
             put_data := put_data c @ [(n, concat (map data (take 10 (m_inputQueue c))))]\<rparr>"
  using assms by (simp add: replyInterest_def fillMidiBuf_eq sendData_def)

lemma replyInterest_idle:
  assumes "m_connGood c" "m_inputQueue c = [] \<or> m_interestQueue c = []"
  shows "replyInterest c = c"
  using assms by (auto simp: replyInterest_def)

text \<open>
  C5. A drain step (\<open>replyInterest\<close>) that emits a response (gives a packet to the
  face) found both the interest queue and the input queue non-empty at call time. It
  then removes exactly the first pending interest, removes the first
  \<open>min 10 (length m_inputQueue)\<close> input items (at most 10), and the one packet it emits
  is named as the removed interest and carries the concatenation of the removed items,
  three bytes each.
\<close>

theorem C5_replyInterest_emits_batch:
  assumes "put_data (replyInterest c) \<noteq> put_data c"
  shows "m_inputQueue c \<noteq> [] \<and> m_interestQueue c \<noteq> [] \<and>
         m_interestQueue c = hd (m_interestQueue c) # m_interestQueue (replyInterest c) \<and>
         length (take 10 (m_inputQueue c)) \<le> 10 \<and>
         m_inputQueue c = take 10 (m_inputQueue c) @ m_inputQueue (replyInterest c) \<and>
         put_data (replyInterest c) =
           put_data c @ [(hd (m_interestQueue c), concat (map data (take 10 (m_inputQueue c))))] \<and>
         length (concat (map data (take 10 (m_inputQueue c)))) \<le> 3 * 10"
proof -
  have conn: "m_connGood c"
    using assms by (cases "m_connGood c") (simp_all add: replyInterest_disconnected)
  have ne: "m_inputQueue c \<noteq> [] \<and> m_interestQueue c \<noteq> []"
    using assms conn replyInterest_idle [of c] by auto
  then obtain n rest where iq: "m_interestQueue c = n # rest"
    by (cases "m_interestQueue c") auto
  have len: "length (concat (map data (take 10 (m_inputQueue c)))) =
             3 * length (take 10 (m_inputQueue c))"
    by (rule length_concat_data)
  show ?thesis
    using ne iq len replyInterest_emits [OF conn _ iq] by simp
qed

theorem C5_witness:
  "put_data (replyInterest
      \<lparr>m_connGood = True, m_inputQueue = [(144, 64, 90), (144, 64, 0)],
       m_interestQueue = [[Generic ''peerA'', SequenceNumber 0]],
       m_maxSeqNo = 1, m_hbCount = 0, heartbeatNonce = 0, put_data = [], hb_expressed = []\<rparr>)
   = [([Generic ''peerA'', SequenceNumber 0], [144, 64, 90, 144, 64, 0])]"
  using C5_replyInterest_emits_batch
    [of "\<lparr>m_connGood = True, m_inputQueue = [(144, 64, 90), (144, 64, 0)],
       m_interestQueue = [[Generic ''peerA'', SequenceNumber 0]],
       m_maxSeqNo = 1, m_hbCount = 0, heartbeatNonce = 0, put_data = [], hb_expressed = []\<rparr>"]
  by (simp add: replyInterest_def sendData_def)

section \<open>The Controller: heartbeat and input against the drain step\<close>

lemma sendHeartbeat_step_queues:
  "m_inputQueue (sendHeartbeat_step c) = m_inputQueue c"
  "m_interestQueue (sendHeartbeat_step c) = m_interestQueue c"
  "put_data (sendHeartbeat_step c) = put_data c"
  "m_hbCount (sendHeartbeat_step c) = m_hbCount c + 1"
  by (simp_all add: sendHeartbeat_step_def Controller_requestNext_def Let_def)

lemma sendHeartbeat_step_connGood:
  "m_connGood (sendHeartbeat_step c) = (m_connGood c \<and> \<not> m_hbCount c + 1 > MAX_HEARTBEAT_PROBE)"
  by (auto simp: sendHeartbeat_step_def Controller_requestNext_def Let_def)

text \<open>
  C6. The claim is that the heartbeat step in which the miss count exceeds
  \<open>MAX_HEARTBEAT_PROBE\<close> while connected flips \<open>m_connGood\<close> and empties both queues.
  \<open>sendHeartbeat\<close> only flips the flag: the step that brings the count of a connected
  controller to 4 leaves its queued message and its queued interest where they are.
\<close>

theorem C6_counterexample:
  "m_connGood probing \<and> m_hbCount (sendHeartbeat_step probing) = 4 \<and>
   m_connGood (sendHeartbeat_step probing) = False \<and>
   m_inputQueue (sendHeartbeat_step probing) = [(144, 64, 90)] \<and>
   m_interestQueue (sendHeartbeat_step probing) = [[Generic ''peerA'', SequenceNumber 7]]"
  by (simp add: sendHeartbeat_step_queues sendHeartbeat_step_connGood probing_def
      MAX_HEARTBEAT_PROBE_def)

text \<open>
  C6, amended. A heartbeat step that brings the miss count of a connected controller
  above \<open>MAX_HEARTBEAT_PROBE\<close> sets \<open>m_connGood\<close> to false and leaves both queues as
  they are; the next drain step (\<open>replyInterest\<close>) empties both queues and emits
  nothing.
\<close>

theorem C6_heartbeat_flips_then_drain_clears:
  assumes "m_connGood c" and "m_hbCount c + 1 > MAX_HEARTBEAT_PROBE"
  shows "\<not> m_connGood (sendHeartbeat_step c) \<and>
         m_inputQueue (sendHeartbeat_step c) = m_inputQueue c \<and>
         m_interestQueue (sendHeartbeat_step c) = m_interestQueue c \<and>
         m_inputQueue (replyInterest (sendHeartbeat_step c)) = [] \<and>
         m_interestQueue (replyInterest (sendHeartbeat_step c)) = [] \<and>
         put_data (replyInterest (sendHeartbeat_step c)) = put_data c"
proof -
  have off: "\<not> m_connGood (sendHeartbeat_step c)"
    using assms by (simp add: sendHeartbeat_step_connGood)
  show ?thesis
    using off by (simp add: replyInterest_disconnected [OF off] sendHeartbeat_step_queues)
qed

theorem C6_witness:
  "m_connGood probing \<and> m_hbCount probing + 1 > MAX_HEARTBEAT_PROBE \<and>
   \<not> m_connGood (sendHeartbeat_step probing) \<and>
   m_inputQueue (replyInterest (sendHeartbeat_step probing)) = [] \<and>
   m_interestQueue (replyInterest (sendHeartbeat_step probing)) = [] \<and>
   put_data (replyInterest (sendHeartbeat_step probing)) = []"
  using C6_heartbeat_flips_then_drain_clears [of probing]
  by (simp add: probing_def MAX_HEARTBEAT_PROBE_def)

text \<open>
  C9. The claim is that \<open>addInput\<close> on a controller that is not connected does not
  buffer the message and clears the input queue instead. \<open>addInput\<close> does not read
  \<open>m_connGood\<close>: on the controller that is not connected the message is queued.
\<close>

theorem C9_counterexample:
  "m_connGood disconnected = False \<and>
   m_inputQueue (addInput (144, 64, 90) disconnected) = [(144, 64, 90)]"
  by (simp add: addInput_def disconnected_def)

text \<open>
  C9, amended. \<open>addInput\<close> appends the message to the input queue whether the
  controller is connected or not, and changes nothing else. When the controller is not
  connected, the next drain step (\<open>replyInterest\<close>) empties the input queue (and the
  interest queue) and emits nothing, so the message is discarded, not sent.
\<close>

theorem C9_addInput_appends_drain_discards:
  "m_inputQueue (addInput msg c) = m_inputQueue c @ [msg] \<and>
   addInput msg c = c\<lparr>m_inputQueue := m_inputQueue c @ [msg]\<rparr> \<and>
   (\<not> m_connGood c \<longrightarrow>
      m_inputQueue (replyInterest (addInput msg c)) = [] \<and>
      m_interestQueue (replyInterest (addInput msg c)) = [] \<and>
      put_data (replyInterest (addInput msg c)) = put_data c)"
  by (simp add: addInput_def replyInterest_disconnected)

theorem C9_witness:
  "\<not> m_connGood disconnected \<and>
   m_inputQueue (addInput (144, 64, 90) disconnected) = [(144, 64, 90)] \<and>
   m_inputQueue (replyInterest (addInput (144, 64, 90) disconnected)) = [] \<and>
   put_data (replyInterest (addInput (144, 64, 90) disconnected)) = []"
  using C9_addInput_appends_drain_discards [of "(144, 64, 90)" disconnected]
  by (simp add: disconnected_def addInput_def replyInterest_def)

section \<open>Properties of the PlaybackModule\<close>


lemma requestNext_unknown: "m_lookup s r = None \<Longrightarrow> requestNext r s = s"
  by (simp add: requestNext_def)

lemma requestNext_funpow_unknown: "m_lookup s r = None \<Longrightarrow> (requestNext r ^^ n) s = s"
  by (induction n) (simp_all add: requestNext_unknown)

lemma requestNext_funpow_known:
  "m_lookup s r = Some cb \<Longrightarrow>
   (requestNext r ^^ n) s =
     s\<lparr>expressed := expressed s @ map (\<lambda>i. (r, maxSeqNo cb + int i)) [0..<n],
       m_lookup := (m_lookup s)(r \<mapsto> cb\<lparr>maxSeqNo := maxSeqNo cb + int n\<rparr>)\<rparr>"
proof (induction n)
  case 0
  then have "(m_lookup s)(r \<mapsto> cb) = m_lookup s" by (simp add: map_upd_triv)
  then show ?case by simp
next
  case (Suc n)
  let ?t = "(requestNext r ^^ n) s"
  have t: "?t = s\<lparr>expressed := expressed s @ map (\<lambda>i. (r, maxSeqNo cb + int i)) [0..<n],
       m_lookup := (m_lookup s)(r \<mapsto> cb\<lparr>maxSeqNo := maxSeqNo cb + int n\<rparr>)\<rparr>"
    by (rule Suc.IH [OF Suc.prems])
  have lk: "m_lookup ?t r = Some (cb\<lparr>maxSeqNo := maxSeqNo cb + int n\<rparr>)"
    by (subst t) simp
  have "(requestNext r ^^ Suc n) s = requestNext r ?t" by simp
  also have "\<dots> = ?t\<lparr>expressed := expressed ?t @ [(r, maxSeqNo cb + int n)],
       m_lookup := (m_lookup ?t)(r \<mapsto> cb\<lparr>maxSeqNo := maxSeqNo cb + int n + 1\<rparr>)\<rparr>"
    using lk by (simp add: requestNext_def)
  also have "\<dots> = s\<lparr>expressed := expressed s @ map (\<lambda>i. (r, maxSeqNo cb + int i)) [0..<Suc n],
       m_lookup := (m_lookup s)(r \<mapsto> cb\<lparr>maxSeqNo := maxSeqNo cb + int (Suc n)\<rparr>)\<rparr>"
    by (subst t, subst t, subst t) (simp add: ac_simps)
  finally show ?case .
qed

lemma list_update_three:
  "length xs = 3 \<Longrightarrow> xs[0 := a, Suc 0 := b, 2 := c] = [a, b, c]"
  by (cases xs; cases "tl xs"; cases "tl (tl xs)") auto

lemma isShutdown_take3:
  "3 \<le> length b \<Longrightarrow> isShutdown b = (take 3 b = [0, 0, 0])"
  by (cases b; cases "tl b"; cases "tl (tl b)") (auto simp: isShutdown_def eval_nat_numeral)

lemma playLoop_effect:
  "playLoop r buffer j s = Inr (fl, s') \<Longrightarrow>
     expressed s' = expressed s \<and> put_accepted s' = put_accepted s \<and>
     m_lookup s' = (if fl then (m_lookup s)(r := None) else m_lookup s)"
proof (induction r buffer j s rule: playLoop.induct)
  case (1 r buffer j s)
  show ?case
    using "1.prems" "1.IH"
    by (subst (asm) playLoop.simps) (auto simp: Let_def split: if_splits)
qed


lemma units_short: "length xs < 3 \<Longrightarrow> units xs = []"
  by (simp add: units_def)

lemma units_Cons3: "units (a # b # c # ys) = [a, b, c] # units ys"
proof -
  have "length (a # b # c # ys) div 3 = Suc (length ys div 3)" by simp
  then show ?thesis
    by (simp add: units_def unit_at_def map_upt_Suc del: upt_Suc)
qed


lemma playLoop_done: "\<not> j < length buffer div 3 \<Longrightarrow> playLoop r buffer j s = Inr (False, s)"
  by (subst playLoop.simps) simp

lemma playLoop_runs:
  assumes "take 3 buffer \<noteq> [0, 0, 0]"
  shows "length buffer div 3 - j = k \<Longrightarrow> length (message s) = 3 \<Longrightarrow>
         \<exists>s'. playLoop r buffer j s = Inr (False, s') \<and> m_lookup s' = m_lookup s \<and>
              expressed s' = expressed s \<and> put_accepted s' = put_accepted s \<and>
              length (message s') = 3 \<and>
              sent_midi s' = sent_midi s @ map (unit_at buffer) [j..<length buffer div 3]"
proof (induction k arbitrary: j s)
  case 0
  then show ?case by (simp add: playLoop_done)
next
  case (Suc k)
  then have lt: "j < length buffer div 3" by simp
  then have "3 \<le> length buffer" by (cases "length buffer < 3") auto
  with assms have ns: "\<not> isShutdown buffer"
    by (simp add: isShutdown_take3)
  let ?s2 = "s\<lparr>message := unit_at buffer j, sent_midi := sent_midi s @ [unit_at buffer j]\<rparr>"
  have unfold: "playLoop r buffer j s = playLoop r buffer (Suc j) ?s2"
    using lt ns Suc.prems(2)
    by (subst playLoop.simps) (simp add: Let_def list_update_three unit_at_def)
  have "length buffer div 3 - Suc j = k" using Suc.prems(1) by simp
  moreover have "length (message ?s2) = 3" by (simp add: unit_at_def)
  ultimately obtain s' where s': "playLoop r buffer (Suc j) ?s2 = Inr (False, s')"
      "m_lookup s' = m_lookup ?s2" "expressed s' = expressed ?s2"
      "put_accepted s' = put_accepted ?s2" "length (message s') = 3"
      "sent_midi s' = sent_midi ?s2 @ map (unit_at buffer) [Suc j..<length buffer div 3]"
    using Suc.IH [of "Suc j" ?s2] by blast
  show ?case
    using s' lt by (simp add: unfold upt_conv_Cons)
qed

lemma playLoop_sentinel:
  assumes "take 3 buffer = [0, 0, 0]" "length (message s) = 3"
  shows "playLoop r buffer 0 s =
           Inr (True, s\<lparr>message := [0, 0, 0], sent_midi := sent_midi s @ [[0, 0, 0]],
                         m_lookup := (m_lookup s)(r := None)\<rparr>)"
proof -
  have len: "3 \<le> length buffer"
    using assms(1) by (cases "length buffer < 3") auto
  with assms(1) have z: "isShutdown buffer"
    by (simp add: isShutdown_take3)
  have lt: "0 < length buffer div 3"
    using len by (simp add: div_greater_zero_iff)
  have nth: "buffer ! 0 = 0" "buffer ! Suc 0 = 0" "buffer ! 2 = 0"
    using z by (simp_all add: isShutdown_def)
  show ?thesis
    using z lt assms(2)
    by (subst playLoop.simps) (simp add: Let_def list_update_three nth)
qed

lemma onData_accept:
  assumes "d_last d = SequenceNumber seqNo" "m_lookup s (d_remote d) = Some cb"
      "length (d_content d) \<le> 30" "minSeqNo cb \<le> seqNo" "seqNo \<le> maxSeqNo cb"
  shows "onData d s =
     (case playLoop (d_remote d) (d_content d) 0
             (s\<lparr>m_lookup := (m_lookup s)(d_remote d \<mapsto> cb\<lparr>minSeqNo := seqNo + 1\<rparr>)\<rparr>) of
        Inl e \<Rightarrow> Inl e
      | Inr (returned, s2) \<Rightarrow>
          if returned then Inr s2
          else Inr ((requestNext (d_remote d) ^^ nat (seqNo - minSeqNo cb + 1)) s2))"
  using assms by (simp add: onData_def Let_def)

lemma onData_plays:
  assumes "d_last d = SequenceNumber seqNo" "m_lookup s (d_remote d) = Some cb"
      "length (d_content d) \<le> 30" "minSeqNo cb \<le> seqNo" "seqNo \<le> maxSeqNo cb"
      "take 3 (d_content d) \<noteq> [0, 0, 0]" "length (message s) = 3"
  shows "\<exists>s'. onData d s = Inr s' \<and>
           m_lookup s' = (m_lookup s)(d_remote d \<mapsto>
              cb\<lparr>minSeqNo := seqNo + 1, maxSeqNo := maxSeqNo cb + (seqNo - minSeqNo cb + 1)\<rparr>) \<and>
           sent_midi s' = sent_midi s @ units (d_content d) \<and>
           expressed s' = expressed s @
              map (\<lambda>i. (d_remote d, maxSeqNo cb + int i)) [0..<nat (seqNo - minSeqNo cb + 1)] \<and>
           put_accepted s' = put_accepted s"
proof -
  let ?r = "d_remote d"
  let ?s1 = "s\<lparr>m_lookup := (m_lookup s)(?r \<mapsto> cb\<lparr>minSeqNo := seqNo + 1\<rparr>)\<rparr>"
  let ?n = "nat (seqNo - minSeqNo cb + 1)"
  have "length (message ?s1) = 3" using assms(7) by simp
  have "\<exists>s'. playLoop ?r (d_content d) 0 ?s1 = Inr (False, s') \<and> m_lookup s' = m_lookup ?s1 \<and>
              expressed s' = expressed ?s1 \<and> put_accepted s' = put_accepted ?s1 \<and>
              length (message s') = 3 \<and>
              sent_midi s' = sent_midi ?s1 @
                map (unit_at (d_content d)) [0..<length (d_content d) div 3]"
    by (rule playLoop_runs [OF assms(6) refl]) (simp add: assms(7))
  then obtain s2 where s2: "playLoop ?r (d_content d) 0 ?s1 = Inr (False, s2)"
      "m_lookup s2 = m_lookup ?s1" "expressed s2 = expressed ?s1"
      "put_accepted s2 = put_accepted ?s1"
      "sent_midi s2 = sent_midi ?s1 @ map (unit_at (d_content d)) [0..<length (d_content d) div 3]"
    by auto
  have res: "onData d s = Inr ((requestNext ?r ^^ ?n) s2)"
    by (simp add: onData_accept [OF assms(1-5)] s2(1))
  have lk: "m_lookup s2 ?r = Some (cb\<lparr>minSeqNo := seqNo + 1\<rparr>)"
    by (simp add: s2(2))
  have int_n: "int ?n = seqNo - minSeqNo cb + 1" using assms(4) by simp
  show ?thesis
    unfolding res requestNext_funpow_known [OF lk]
    using assms(4) by (simp add: s2 units_def)
qed

lemma onData_shutdown:
  assumes "d_last d = SequenceNumber seqNo" "m_lookup s (d_remote d) = Some cb"
      "length (d_content d) \<le> 30" "minSeqNo cb \<le> seqNo" "seqNo \<le> maxSeqNo cb"
      "take 3 (d_content d) = [0, 0, 0]" "length (message s) = 3"
  shows "onData d s =
           Inr (s\<lparr>m_lookup := (m_lookup s)(d_remote d := None), message := [0, 0, 0],
                  sent_midi := sent_midi s @ [[0, 0, 0]]\<rparr>)"
proof -
  let ?s1 = "s\<lparr>m_lookup := (m_lookup s)(d_remote d \<mapsto> cb\<lparr>minSeqNo := seqNo + 1\<rparr>)\<rparr>"
  have "length (message ?s1) = 3" using assms(7) by simp
  from playLoop_sentinel [OF assms(6) this, of "d_remote d"]
  show ?thesis
    by (simp add: onData_accept [OF assms(1-5)])
qed

lemma onData_stale:
  assumes "d_last d = SequenceNumber seqNo" "m_lookup s (d_remote d) = Some cb"
      "length (d_content d) \<le> 30" "seqNo < minSeqNo cb"
  shows "onData d s = Inr s"
  using assms by (simp add: onData_def Let_def)

lemma onData_above:
  assumes "d_last d = SequenceNumber seqNo" "m_lookup s (d_remote d) = Some cb"
      "length (d_content d) \<le> 30" "maxSeqNo cb < seqNo"
  shows "onData d s = Inr s"
  using assms by (simp add: onData_def Let_def)

lemma onData_unknown:
  assumes "m_lookup s (d_remote d) = None" "d_last d = SequenceNumber seqNo"
  shows "onData d s = Inr s"
  using assms by (simp add: onData_def Let_def)

lemma onData_lookup_cases:
  assumes "onData d s = Inr s'"
  shows "m_lookup s' = m_lookup s \<or> m_lookup s' = (m_lookup s)(d_remote d := None) \<or>
         (\<exists>cb seqNo. m_lookup s (d_remote d) = Some cb \<and> minSeqNo cb \<le> seqNo \<and>
            seqNo \<le> maxSeqNo cb \<and>
            m_lookup s' = (m_lookup s)(d_remote d \<mapsto>
              cb\<lparr>minSeqNo := seqNo + 1, maxSeqNo := maxSeqNo cb + (seqNo - minSeqNo cb + 1)\<rparr>))"
proof (cases "d_last d")
  case (Generic u)
  with assms show ?thesis by (simp add: onData_def split: if_splits)
next
  case (SequenceNumber seqNo)
  show ?thesis
  proof (cases "m_lookup s (d_remote d)")
    case None
    with assms SequenceNumber show ?thesis by (simp add: onData_unknown)
  next
    case (Some cb)
    let ?r = "d_remote d"
    let ?s1 = "s\<lparr>m_lookup := (m_lookup s)(?r \<mapsto> cb\<lparr>minSeqNo := seqNo + 1\<rparr>)\<rparr>"
    let ?n = "nat (seqNo - minSeqNo cb + 1)"
    consider (over) "30 < length (d_content d)"
      | (stale) "length (d_content d) \<le> 30" "seqNo < minSeqNo cb"
      | (above) "length (d_content d) \<le> 30" "maxSeqNo cb < seqNo"
      | (accept) "length (d_content d) \<le> 30" "minSeqNo cb \<le> seqNo" "seqNo \<le> maxSeqNo cb"
      by linarith
    then show ?thesis
    proof cases
      case over
      with assms SequenceNumber Some show ?thesis by (simp add: onData_def Let_def)
    next
      case stale
      with assms SequenceNumber Some show ?thesis by (simp add: onData_stale)
    next
      case above
      with assms SequenceNumber Some show ?thesis by (simp add: onData_above)
    next
      case accept
      note acc = onData_accept [OF SequenceNumber Some accept]
      show ?thesis
      proof (cases "playLoop ?r (d_content d) 0 ?s1")
        case (Inl e)
        with assms acc show ?thesis by simp
      next
        case (Inr p)
        obtain fl s2 where p: "p = (fl, s2)" by (cases p)
        from playLoop_effect [OF Inr [unfolded p]]
        have lk2: "m_lookup s2 = (if fl then (m_lookup ?s1)(?r := None) else m_lookup ?s1)"
          by simp
        show ?thesis
        proof (cases fl)
          case True
          with assms acc Inr p have "s' = s2" by simp
          with lk2 True show ?thesis by simp
        next
          case False
          with assms acc Inr p have s': "s' = (requestNext ?r ^^ ?n) s2" by simp
          from lk2 False have lk: "m_lookup s2 ?r = Some (cb\<lparr>minSeqNo := seqNo + 1\<rparr>)"
            by simp
          have int_n: "int ?n = seqNo - minSeqNo cb + 1" using accept(2) by simp
          have "m_lookup s' = (m_lookup s)(?r \<mapsto>
              cb\<lparr>minSeqNo := seqNo + 1, maxSeqNo := maxSeqNo cb + (seqNo - minSeqNo cb + 1)\<rparr>)"
            unfolding s' requestNext_funpow_known [OF lk]
            using lk2 False accept(2) by simp
          with Some accept show ?thesis by blast
        qed
      qed
    qed
  qed
qed

lemma onInterest_other: "i_last i \<noteq> Generic ''heartbeat'' \<Longrightarrow> onInterest i s = s"
  by (simp add: onInterest_def)

lemma onInterest_known:
  assumes "i_last i = Generic ''heartbeat''" "m_lookup s (i_remote i) = Some cb"
  shows "onInterest i s =
           s\<lparr>m_lookup := (m_lookup s)(i_remote i \<mapsto> cb\<lparr>inactiveTime := 0\<rparr>),
             put_accepted := put_accepted s @ [i]\<rparr>"
  using assms by (simp add: onInterest_def Let_def)

lemma onInterest_new:
  assumes "i_last i = Generic ''heartbeat''" "m_lookup s (i_remote i) = None"
  shows "onInterest i s =
           s\<lparr>m_lookup := (m_lookup s)(i_remote i \<mapsto>
                \<lparr>minSeqNo = 0, maxSeqNo = int PREWARM_AMOUNT, inactiveTime = 0\<rparr>),
             put_accepted := put_accepted s @ [i],
             expressed := expressed s @ map (\<lambda>k. (i_remote i, int k)) [0..<PREWARM_AMOUNT]\<rparr>"
proof -
  let ?s2 = "s\<lparr>m_lookup := (m_lookup s)(i_remote i \<mapsto>
                \<lparr>minSeqNo = 0, maxSeqNo = 0, inactiveTime = 0\<rparr>),
             put_accepted := put_accepted s @ [i]\<rparr>"
  have lk: "m_lookup ?s2 (i_remote i) = Some \<lparr>minSeqNo = 0, maxSeqNo = 0, inactiveTime = 0\<rparr>"
    by simp
  have "onInterest i s = (requestNext (i_remote i) ^^ PREWARM_AMOUNT) ?s2"
    using assms by (simp add: onInterest_def Let_def)
  then show ?thesis
    unfolding requestNext_funpow_known [OF lk] by simp
qed

lemma requestNext_known:
  "m_lookup s r = Some cb \<Longrightarrow>
   requestNext r s = s\<lparr>expressed := expressed s @ [(r, maxSeqNo cb)],
                        m_lookup := (m_lookup s)(r \<mapsto> cb\<lparr>maxSeqNo := maxSeqNo cb + 1\<rparr>)\<rparr>"
  by (simp add: requestNext_def)

lemma controlBlockMonitoring_step_lookup:
  "m_lookup (controlBlockMonitoring_step s) r =
     (case m_lookup s r of
        None \<Rightarrow> None
      | Some cb \<Rightarrow>
          if inactiveTime cb + 1 > MAX_INACTIVE_TIME then None
          else Some (cb\<lparr>inactiveTime := inactiveTime cb + 1\<rparr>))"
  by (simp add: controlBlockMonitoring_step_def incrementAll_def in_rmList_def Let_def
      split: option.splits)

lemma accepted_peerA_eq:
  "accepted_peerA =
     \<lparr>m_lookup = [''peerA'' \<mapsto> \<lparr>minSeqNo = 0, maxSeqNo = 5, inactiveTime = 0\<rparr>],
      message = [144, 64, 0],
      expressed = [(''peerA'', 0), (''peerA'', 1), (''peerA'', 2), (''peerA'', 3), (''peerA'', 4)],
      sent_midi = [], put_accepted = [heartbeat_peerA]\<rparr>"
proof -
  have upt5: "[0..<5] = [0, 1, 2, 3, 4::nat]" by (simp add: upt_rec)
  have "i_last heartbeat_peerA = Generic ''heartbeat''" "m_lookup initial (i_remote heartbeat_peerA) = None"
    by (simp_all add: heartbeat_peerA_def initial_def)
  from onInterest_new [OF this] show ?thesis
    by (simp add: accepted_peerA_def initial_def PREWARM_AMOUNT_def upt5 heartbeat_peerA_def)
qed

lemma controlBlockMonitoring_step_fields:
  "message (controlBlockMonitoring_step s) = message s"
  "expressed (controlBlockMonitoring_step s) = expressed s"
  "sent_midi (controlBlockMonitoring_step s) = sent_midi s"
  "put_accepted (controlBlockMonitoring_step s) = put_accepted s"
  by (simp_all add: controlBlockMonitoring_step_def Let_def)

lemma idle_peerA_fields:
  "m_lookup idle_peerA ''peerA'' = Some \<lparr>minSeqNo = 0, maxSeqNo = 5, inactiveTime = 2\<rparr>"
  "message idle_peerA = [144, 64, 0]"
  "expressed idle_peerA = [(''peerA'', 0), (''peerA'', 1), (''peerA'', 2), (''peerA'', 3), (''peerA'', 4)]"
  "sent_midi idle_peerA = []"
  by (simp_all add: idle_peerA_def controlBlockMonitoring_step_lookup MAX_INACTIVE_TIME_def
      controlBlockMonitoring_step_fields accepted_peerA_eq)

lemma units_one: "units [a, b, c] = [[a, b, c]]"
  by (simp add: units_Cons3 units_short)

lemma units_two: "units [a, b, c, d, e, f] = [[a, b, c], [d, e, f]]"
  by (simp add: units_Cons3 units_short)




lemma upt_0_6: "[0..<6] = [0, 1, 2, 3, 4, 5::nat]"
  by (simp add: upt_rec)

text \<open>
  C3. The claim is that a data packet of a known remote with \<open>seqNo \<ge> maxSeqNo\<close> is
  dropped. The guard of \<open>onData\<close> is \<open>cb.maxSeqNo < seqNo\<close>, so a packet with
  \<open>seqNo = maxSeqNo\<close>, a sequence number no interest was expressed for, is accepted:
  after \<open>peerA\<close> was accepted (window 0 to 5, interests 0 to 4 expressed), the packet
  with sequence number 5 moves \<open>minSeqNo\<close> to 6, sends its unit to the device and
  expresses six more interests.
\<close>

theorem C3_seqNo_equal_maxSeqNo_is_accepted:
  "observe ''peerA'' (onData (response 5 [144, 64, 90]) accepted_peerA) =
     Inr (Some \<lparr>minSeqNo = 6, maxSeqNo = 11, inactiveTime = 0\<rparr>,
          [(''peerA'', 0), (''peerA'', 1), (''peerA'', 2), (''peerA'', 3), (''peerA'', 4),
           (''peerA'', 5), (''peerA'', 6), (''peerA'', 7), (''peerA'', 8), (''peerA'', 9),
           (''peerA'', 10)],
          [[144, 64, 90]])"
  using onData_plays [of "response 5 [144, 64, 90]" 5 accepted_peerA
        "\<lparr>minSeqNo = 0, maxSeqNo = 5, inactiveTime = 0\<rparr>"]
  by (auto simp: observe_def response_def accepted_peerA_eq units_one upt_0_6)

text \<open>
  C4. A data packet of a known remote with \<open>minSeqNo \<le> seqNo < maxSeqNo\<close> whose content
  is the shutdown message \<open>{0,0,0}\<close> erases the remote from \<open>m_lookup\<close> (and no other
  entry) and expresses no interest.
\<close>

theorem C4_onData_shutdown_erases:
  assumes "d_last d = SequenceNumber seqNo"
      and "m_lookup s (d_remote d) = Some cb"
      and "minSeqNo cb \<le> seqNo" and "seqNo < maxSeqNo cb"
      and "d_content d = [0, 0, 0]"
      and "length (message s) = 3"
  shows "\<exists>s'. onData d s = Inr s' \<and> m_lookup s' (d_remote d) = None \<and>
              m_lookup s' = (m_lookup s)(d_remote d := None) \<and>
              expressed s' = expressed s"
proof -
  from assms(4) have le: "seqNo \<le> maxSeqNo cb" by simp
  have len: "length (d_content d) \<le> 30" and tk: "take 3 (d_content d) = [0, 0, 0]"
    by (simp_all add: assms(5))
  show ?thesis
    by (simp add: onData_shutdown [OF assms(1,2) len assms(3) le tk assms(6)])
qed

theorem C4_witness:
  "observe ''peerA'' (onData (response 1 [0, 0, 0]) accepted_peerA) =
     Inr (None,
          [(''peerA'', 0), (''peerA'', 1), (''peerA'', 2), (''peerA'', 3), (''peerA'', 4)],
          [[0, 0, 0]])"
  using C4_onData_shutdown_erases [of "response 1 [0, 0, 0]" 1 accepted_peerA
        "\<lparr>minSeqNo = 0, maxSeqNo = 5, inactiveTime = 0\<rparr>"]
    onData_shutdown [of "response 1 [0, 0, 0]" 1 accepted_peerA
        "\<lparr>minSeqNo = 0, maxSeqNo = 5, inactiveTime = 0\<rparr>"]
  by (auto simp: observe_def response_def accepted_peerA_eq)

text \<open>
  C10. For an accepted data packet (one that fits \<open>buffer\<close>, with the three-element
  \<open>message\<close>), whether the remote is erased depends on the first three bytes of the
  content only: it is erased exactly when they are all zero. When they are not, an
  all-zero unit later in the content changes nothing: the remote stays in \<open>m_lookup\<close>,
  every unit is sent to the device, and the \<open>seqNo - minSeqNo + 1\<close> new interests are
  expressed.
\<close>

theorem C10_shutdown_test_reads_first_unit:
  assumes "d_last d = SequenceNumber seqNo"
      and "m_lookup s (d_remote d) = Some cb"
      and "minSeqNo cb \<le> seqNo" and "seqNo \<le> maxSeqNo cb"
      and "length (d_content d) \<le> 30"
      and "length (message s) = 3"
  shows "\<exists>s'. onData d s = Inr s' \<and>
           (m_lookup s' (d_remote d) = None) = (take 3 (d_content d) = [0, 0, 0]) \<and>
           (if take 3 (d_content d) = [0, 0, 0] then expressed s' = expressed s
            else sent_midi s' = sent_midi s @ units (d_content d) \<and>
                 expressed s' = expressed s @
                   map (\<lambda>i. (d_remote d, maxSeqNo cb + int i))
                     [0..<nat (seqNo - minSeqNo cb + 1)])"
proof (cases "take 3 (d_content d) = [0, 0, 0]")
  case True
  show ?thesis
    by (simp add: onData_shutdown [OF assms(1,2,5,3,4) True assms(6)] True)
next
  case False
  from onData_plays [OF assms(1,2,5,3,4) False assms(6)]
  show ?thesis
    using False by auto
qed

theorem C10_witness:
  "observe ''peerA'' (onData (response 0 [144, 64, 90, 0, 0, 0]) accepted_peerA) =
     Inr (Some \<lparr>minSeqNo = 1, maxSeqNo = 6, inactiveTime = 0\<rparr>,
          [(''peerA'', 0), (''peerA'', 1), (''peerA'', 2), (''peerA'', 3), (''peerA'', 4),
           (''peerA'', 5)],
          [[144, 64, 90], [0, 0, 0]])"
  using C10_shutdown_test_reads_first_unit [of "response 0 [144, 64, 90, 0, 0, 0]" 0
      accepted_peerA "\<lparr>minSeqNo = 0, maxSeqNo = 5, inactiveTime = 0\<rparr>"]
    onData_plays [of "response 0 [144, 64, 90, 0, 0, 0]" 0
      accepted_peerA "\<lparr>minSeqNo = 0, maxSeqNo = 5, inactiveTime = 0\<rparr>"]
  by (auto simp: observe_def response_def accepted_peerA_eq units_two)

text \<open>
  C8. The claim is that \<open>inactiveTime\<close> is reset to 0 by any response for the session,
  data or heartbeat. \<open>onData\<close> never writes \<open>inactiveTime\<close>: after two sweep ticks
  the counter of \<open>peerA\<close> is 2, and it is still 2 after an accepted data packet.
\<close>

theorem C8_counterexample:
  "observe ''peerA'' (onData (response 0 [144, 64, 90]) idle_peerA) =
     Inr (Some \<lparr>minSeqNo = 1, maxSeqNo = 6, inactiveTime = 2\<rparr>,
          [(''peerA'', 0), (''peerA'', 1), (''peerA'', 2), (''peerA'', 3), (''peerA'', 4),
           (''peerA'', 5)],
          [[144, 64, 90]])"
  using onData_plays [of "response 0 [144, 64, 90]" 0 idle_peerA
        "\<lparr>minSeqNo = 0, maxSeqNo = 5, inactiveTime = 2\<rparr>"]
  by (auto simp: observe_def response_def idle_peerA_fields units_one)

text \<open>
  C8, amended. For an existing session, a heartbeat interest of its remote
  (\<open>onInterest\<close>) sets \<open>inactiveTime\<close> to 0 and leaves the window as it is; a data
  packet (\<open>onData\<close>) leaves \<open>inactiveTime\<close> of every session it keeps unchanged.
\<close>

theorem C8_inactiveTime_reset_by_heartbeat_only:
  assumes "m_lookup s r = Some cb"
  shows "m_lookup (onInterest \<lparr>i_last = Generic ''heartbeat'', i_remote = r\<rparr> s) r =
           Some (cb\<lparr>inactiveTime := 0\<rparr>) \<and>
         (\<forall>d s' cb'. onData d s = Inr s' \<and> m_lookup s' r = Some cb' \<longrightarrow>
            inactiveTime cb' = inactiveTime cb)"
proof
  show "m_lookup (onInterest \<lparr>i_last = Generic ''heartbeat'', i_remote = r\<rparr> s) r =
           Some (cb\<lparr>inactiveTime := 0\<rparr>)"
    using assms by (simp add: onInterest_known)
next
  show "\<forall>d s' cb'. onData d s = Inr s' \<and> m_lookup s' r = Some cb' \<longrightarrow>
            inactiveTime cb' = inactiveTime cb"
  proof (intro allI impI, elim conjE)
    fix d s' cb'
    assume "onData d s = Inr s'" and lk': "m_lookup s' r = Some cb'"
    from onData_lookup_cases [OF this(1)] lk' assms
    show "inactiveTime cb' = inactiveTime cb"
      by (auto split: if_splits)
  qed
qed

theorem C8_witness:
  "m_lookup idle_peerA ''peerA'' = Some \<lparr>minSeqNo = 0, maxSeqNo = 5, inactiveTime = 2\<rparr> \<and>
   m_lookup (onInterest heartbeat_peerA idle_peerA) ''peerA'' =
     Some \<lparr>minSeqNo = 0, maxSeqNo = 5, inactiveTime = 0\<rparr>"
  using C8_inactiveTime_reset_by_heartbeat_only [of idle_peerA "''peerA''"
      "\<lparr>minSeqNo = 0, maxSeqNo = 5, inactiveTime = 2\<rparr>"]
  by (simp add: idle_peerA_fields heartbeat_peerA_def)

section \<open>Runs of the PlaybackModule\<close>

lemma onInterest_lookup_cases:
  "m_lookup (onInterest i s) = m_lookup s \<or>
   (\<exists>cb. m_lookup s (i_remote i) = Some cb \<and>
      m_lookup (onInterest i s) = (m_lookup s)(i_remote i \<mapsto> cb\<lparr>inactiveTime := 0\<rparr>)) \<or>
   (m_lookup s (i_remote i) = None \<and>
      m_lookup (onInterest i s) = (m_lookup s)(i_remote i \<mapsto>
         \<lparr>minSeqNo = 0, maxSeqNo = int PREWARM_AMOUNT, inactiveTime = 0\<rparr>))"
proof (cases "i_last i = Generic ''heartbeat''")
  case False
  then show ?thesis by (simp add: onInterest_other)
next
  case True
  show ?thesis
  proof (cases "m_lookup s (i_remote i)")
    case None
    from onInterest_new [OF True None] None show ?thesis by simp
  next
    case (Some cb)
    from onInterest_known [OF True Some] Some show ?thesis by simp
  qed
qed

lemma requestNext_lookup_cases:
  "m_lookup (requestNext r s) = m_lookup s \<or>
   (\<exists>cb. m_lookup s r = Some cb \<and>
      m_lookup (requestNext r s) = (m_lookup s)(r \<mapsto> cb\<lparr>maxSeqNo := maxSeqNo cb + 1\<rparr>))"
  by (cases "m_lookup s r") (simp_all add: requestNext_unknown requestNext_known)

lemma table_okD:
  "table_ok m \<Longrightarrow> m r = Some cb \<Longrightarrow>
   minSeqNo cb \<le> maxSeqNo cb \<and> 0 \<le> inactiveTime cb \<and> inactiveTime cb \<le> MAX_INACTIVE_TIME"
  by (simp add: table_ok_def)

lemma table_ok_upd:
  "table_ok m \<Longrightarrow> minSeqNo cb \<le> maxSeqNo cb \<Longrightarrow> 0 \<le> inactiveTime cb \<Longrightarrow>
   inactiveTime cb \<le> MAX_INACTIVE_TIME \<Longrightarrow> table_ok (m(r \<mapsto> cb))"
  by (simp add: table_ok_def)

lemma table_ok_del: "table_ok m \<Longrightarrow> table_ok (m(r := None))"
  by (simp add: table_ok_def)

lemma step_table_ok:
  assumes "table_ok (m_lookup s)" "step s x = Inr s'"
  shows "table_ok (m_lookup s')"
proof (cases x)
  case (OnInterest i)
  with assms(2) have s': "s' = onInterest i s" by simp
  from onInterest_lookup_cases [of i s] show ?thesis
  proof (elim disjE exE conjE)
    assume "m_lookup (onInterest i s) = m_lookup s"
    with assms(1) s' show ?thesis by simp
  next
    fix cb
    assume "m_lookup s (i_remote i) = Some cb"
      and eq: "m_lookup (onInterest i s) = (m_lookup s)(i_remote i \<mapsto> cb\<lparr>inactiveTime := 0\<rparr>)"
    from table_okD [OF assms(1) this(1)] show ?thesis
      unfolding s' eq
      by (intro table_ok_upd [OF assms(1)]) (simp_all add: MAX_INACTIVE_TIME_def)
  next
    assume eq: "m_lookup (onInterest i s) = (m_lookup s)(i_remote i \<mapsto>
         \<lparr>minSeqNo = 0, maxSeqNo = int PREWARM_AMOUNT, inactiveTime = 0\<rparr>)"
    show ?thesis
      unfolding s' eq
      by (intro table_ok_upd [OF assms(1)]) (simp_all add: MAX_INACTIVE_TIME_def)
  qed
next
  case (OnData d)
  with assms(2) have "onData d s = Inr s'" by simp
  from onData_lookup_cases [OF this] show ?thesis
  proof (elim disjE exE conjE)
    assume "m_lookup s' = m_lookup s"
    with assms(1) show ?thesis by simp
  next
    assume "m_lookup s' = (m_lookup s)(d_remote d := None)"
    with table_ok_del [OF assms(1)] show ?thesis by simp
  next
    fix cb seqNo
    assume "m_lookup s (d_remote d) = Some cb" and "minSeqNo cb \<le> seqNo"
      and eq: "m_lookup s' = (m_lookup s)(d_remote d \<mapsto>
              cb\<lparr>minSeqNo := seqNo + 1, maxSeqNo := maxSeqNo cb + (seqNo - minSeqNo cb + 1)\<rparr>)"
    from table_okD [OF assms(1) this(1)] this(2) show ?thesis
      unfolding eq by (intro table_ok_upd [OF assms(1)]) simp_all
  qed
next
  case (RequestNext r)
  with assms(2) have s': "s' = requestNext r s" by simp
  from requestNext_lookup_cases [of r s] show ?thesis
  proof (elim disjE exE conjE)
    assume "m_lookup (requestNext r s) = m_lookup s"
    with assms(1) s' show ?thesis by simp
  next
    fix cb
    assume "m_lookup s r = Some cb"
      and eq: "m_lookup (requestNext r s) = (m_lookup s)(r \<mapsto> cb\<lparr>maxSeqNo := maxSeqNo cb + 1\<rparr>)"
    from table_okD [OF assms(1) this(1)] show ?thesis
      unfolding s' eq by (intro table_ok_upd [OF assms(1)]) simp_all
  qed
next
  case SweepTick
  with assms(2) have s': "s' = controlBlockMonitoring_step s" by simp
  show ?thesis
    unfolding table_ok_def
  proof (intro allI impI)
    fix r cb'
    assume "m_lookup s' r = Some cb'"
    then obtain cb where cb: "m_lookup s r = Some cb"
        "cb' = cb\<lparr>inactiveTime := inactiveTime cb + 1\<rparr>"
        "\<not> inactiveTime cb + 1 > MAX_INACTIVE_TIME"
      unfolding s' controlBlockMonitoring_step_lookup
      by (auto split: option.splits if_splits)
    with table_okD [OF assms(1) cb(1)]
    show "minSeqNo cb' \<le> maxSeqNo cb' \<and> 0 \<le> inactiveTime cb' \<and>
          inactiveTime cb' \<le> MAX_INACTIVE_TIME" by simp
  qed
qed

lemma run_table_ok:
  "table_ok (m_lookup s) \<Longrightarrow> run s xs = Inr s' \<Longrightarrow> table_ok (m_lookup s')"
proof (induction xs arbitrary: s)
  case Nil
  then show ?case by simp
next
  case (Cons x xs)
  from Cons.prems(2) obtain s1 where s1: "step s x = Inr s1" "run s1 xs = Inr s'"
    by (auto split: sum.splits)
  from Cons.IH [OF step_table_ok [OF Cons.prems(1) s1(1)] s1(2)] show ?case .
qed

lemma step_minSeqNo_mono:
  assumes "step s x = Inr s'" "m_lookup s r = Some cb" "m_lookup s' r = Some cb'"
  shows "minSeqNo cb \<le> minSeqNo cb'"
proof (cases x)
  case (OnInterest i)
  with assms(1) have s': "s' = onInterest i s" by simp
  from onInterest_lookup_cases [of i s] assms(2,3) show ?thesis
    unfolding s' by (elim disjE exE conjE) (auto split: if_splits)
next
  case (OnData d)
  with assms(1) have "onData d s = Inr s'" by simp
  from onData_lookup_cases [OF this] assms(2,3) show ?thesis
    by (elim disjE exE conjE) (auto split: if_splits)
next
  case (RequestNext r')
  with assms(1) have s': "s' = requestNext r' s" by simp
  from requestNext_lookup_cases [of r' s] assms(2,3) show ?thesis
    unfolding s' by (elim disjE exE conjE) (auto split: if_splits)
next
  case SweepTick
  with assms(1) have s': "s' = controlBlockMonitoring_step s" by simp
  from assms(2,3) show ?thesis
    unfolding s' controlBlockMonitoring_step_lookup by (auto split: if_splits)
qed

lemma run_SweepTicks:
  "run s (replicate n SweepTick) = Inr ((controlBlockMonitoring_step ^^ n) s)"
  by (induction n arbitrary: s) (simp_all add: funpow_swap1)

text \<open>
  C1. In every module reached from the empty table by a run of operations (heartbeat
  and other interests, data packets with any sequence number and content, calls of
  \<open>requestNext\<close>, sweep ticks), every block has \<open>minSeqNo \<le> maxSeqNo\<close>; the same holds
  after one more operation; and an operation never lowers \<open>minSeqNo\<close> of a remote that
  is in the table before and after it.
\<close>

theorem C1_window_ordered_minSeqNo_monotone:
  assumes "m_lookup s0 = Map.empty" and "run s0 xs = Inr s" and "step s x = Inr s'"
  shows "(\<forall>r cb. m_lookup s r = Some cb \<longrightarrow> minSeqNo cb \<le> maxSeqNo cb) \<and>
         (\<forall>r cb'. m_lookup s' r = Some cb' \<longrightarrow> minSeqNo cb' \<le> maxSeqNo cb') \<and>
         (\<forall>r cb cb'. m_lookup s r = Some cb \<and> m_lookup s' r = Some cb' \<longrightarrow>
            minSeqNo cb \<le> minSeqNo cb')"
proof -
  have "table_ok (m_lookup s0)" by (simp add: table_ok_def assms(1))
  from run_table_ok [OF this assms(2)] have ok: "table_ok (m_lookup s)" .
  from step_table_ok [OF ok assms(3)] have ok': "table_ok (m_lookup s')" .
  show ?thesis
    using ok ok' step_minSeqNo_mono [OF assms(3)] by (auto simp: table_ok_def)
qed

theorem C1_witness:
  "run initial [OnInterest heartbeat_peerA] = Inr accepted_peerA \<and>
   (\<exists>s' cb'. step accepted_peerA (OnData (response 2 [144, 64, 90])) = Inr s' \<and>
      m_lookup s' ''peerA'' = Some cb' \<and> 0 \<le> minSeqNo cb' \<and> minSeqNo cb' \<le> maxSeqNo cb')"
proof -
  have r: "run initial [OnInterest heartbeat_peerA] = Inr accepted_peerA"
    by (simp add: accepted_peerA_def)
  have lk: "m_lookup accepted_peerA ''peerA'' = Some \<lparr>minSeqNo = 0, maxSeqNo = 5, inactiveTime = 0\<rparr>"
    by (simp add: accepted_peerA_eq)
  from onData_plays [of "response 2 [144, 64, 90]" 2 accepted_peerA
        "\<lparr>minSeqNo = 0, maxSeqNo = 5, inactiveTime = 0\<rparr>"]
  obtain s' cb' where st: "step accepted_peerA (OnData (response 2 [144, 64, 90])) = Inr s'"
      and lk': "m_lookup s' ''peerA'' = Some cb'"
    by (auto simp: response_def accepted_peerA_eq)
  have e: "m_lookup initial = Map.empty" by (simp add: initial_def)
  from C1_window_ordered_minSeqNo_monotone [OF e r st] lk lk'
  have "0 \<le> minSeqNo cb' \<and> minSeqNo cb' \<le> maxSeqNo cb'" by fastforce
  with r st lk' show ?thesis by blast
qed

lemma step_idle:
  assumes "step s y = Inr s1" "\<not> heartbeat_of r y"
  shows "(case m_lookup s r of
            None \<Rightarrow> m_lookup s1 r = None
          | Some cb \<Rightarrow>
              (case m_lookup s1 r of
                 None \<Rightarrow> True
               | Some cb1 \<Rightarrow>
                   inactiveTime cb1 = inactiveTime cb + (if y = SweepTick then 1 else 0)))"
proof (cases y)
  case (OnInterest i)
  with assms(1) have s1: "s1 = onInterest i s" by simp
  from assms(2) OnInterest have "i_last i \<noteq> Generic ''heartbeat'' \<or> i_remote i \<noteq> r" by simp
  then have "m_lookup s1 r = m_lookup s r"
  proof
    assume "i_last i \<noteq> Generic ''heartbeat''"
    then show ?thesis by (simp add: s1 onInterest_other)
  next
    assume "i_remote i \<noteq> r"
    with onInterest_lookup_cases [of i s] show ?thesis
      unfolding s1 by (elim disjE exE conjE) simp_all
  qed
  with OnInterest show ?thesis by (simp split: option.splits)
next
  case (OnData d)
  with assms(1) have "onData d s = Inr s1" by simp
  from onData_lookup_cases [OF this] OnData show ?thesis
    by (elim disjE exE conjE) (auto split: option.splits if_splits)
next
  case (RequestNext r')
  with assms(1) have s1: "s1 = requestNext r' s" by simp
  from requestNext_lookup_cases [of r' s] RequestNext show ?thesis
    unfolding s1 by (elim disjE exE conjE) (auto split: option.splits if_splits)
next
  case SweepTick
  with assms(1) have s1: "s1 = controlBlockMonitoring_step s" by simp
  from SweepTick show ?thesis
    unfolding s1 controlBlockMonitoring_step_lookup by (auto split: option.splits)
qed

lemma run_idle:
  "run s ys = Inr s' \<Longrightarrow> \<forall>y\<in>set ys. \<not> heartbeat_of r y \<Longrightarrow>
   (case m_lookup s r of
      None \<Rightarrow> m_lookup s' r = None
    | Some cb \<Rightarrow>
        (case m_lookup s' r of
           None \<Rightarrow> True
         | Some cb' \<Rightarrow> inactiveTime cb' = inactiveTime cb + int (count_list ys SweepTick)))"
proof (induction ys arbitrary: s)
  case Nil
  then show ?case by (simp split: option.splits)
next
  case (Cons y ys)
  from Cons.prems(1) obtain s1 where s1: "step s y = Inr s1" "run s1 ys = Inr s'"
    by (auto split: sum.splits)
  from Cons.prems(2) have ny: "\<not> heartbeat_of r y" and nys: "\<forall>y\<in>set ys. \<not> heartbeat_of r y"
    by simp_all
  from step_idle [OF s1(1) ny] Cons.IH [OF s1(2) nys]
  show ?case
    by (auto split: option.splits if_splits)
qed

lemma count_list_replicate_same: "count_list (replicate n x) x = n"
  by (induction n) simp_all

lemma run_idle_removed:
  assumes "table_ok (m_lookup s)" "run s ys = Inr s'" "\<forall>y\<in>set ys. \<not> heartbeat_of r y"
    "nat (MAX_INACTIVE_TIME + 1) \<le> count_list ys SweepTick"
  shows "m_lookup s' r = None"
proof (rule ccontr)
  assume "m_lookup s' r \<noteq> None"
  then obtain cb' where cb': "m_lookup s' r = Some cb'" by auto
  from run_table_ok [OF assms(1,2)] have "table_ok (m_lookup s')" .
  from table_okD [OF this cb'] have le: "inactiveTime cb' \<le> MAX_INACTIVE_TIME" by simp
  from run_idle [OF assms(2,3)] cb' obtain cb where cb: "m_lookup s r = Some cb"
      "inactiveTime cb' = inactiveTime cb + int (count_list ys SweepTick)"
    by (cases "m_lookup s r") auto
  from table_okD [OF assms(1) cb(1)] have "0 \<le> inactiveTime cb" by simp
  with cb(2) assms(4) le show False by linarith
qed

text \<open>
  C7. A sweep tick (one iteration of \<open>controlBlockMonitoring\<close>) adds one to
  \<open>inactiveTime\<close> of every block and erases exactly the remotes whose counter is then
  above \<open>MAX_INACTIVE_TIME\<close>. Hence, in a module reached from the empty table,
  \<open>MAX_INACTIVE_TIME + 1\<close> consecutive sweep ticks leave no remote in the table; and
  after any run that holds at least \<open>MAX_INACTIVE_TIME + 1\<close> sweep ticks and no
  heartbeat interest of a remote, whatever else it holds, that remote is not in the
  table.
\<close>

theorem C7_sweep_ticks_remove_idle_sessions:
  "m_lookup (controlBlockMonitoring_step s) r =
     (case m_lookup s r of
        None \<Rightarrow> None
      | Some cb \<Rightarrow>
          if inactiveTime cb + 1 > MAX_INACTIVE_TIME then None
          else Some (cb\<lparr>inactiveTime := inactiveTime cb + 1\<rparr>)) \<and>
   (m_lookup s0 = Map.empty \<and> run s0 xs = Inr s \<longrightarrow>
      (\<exists>s'. run s (replicate (nat (MAX_INACTIVE_TIME + 1)) SweepTick) = Inr s' \<and>
            m_lookup s' r = None)) \<and>
   (m_lookup s0 = Map.empty \<and> run s0 xs = Inr s \<and> run s ys = Inr s' \<and>
    (\<forall>y\<in>set ys. \<not> heartbeat_of r y) \<and>
    nat (MAX_INACTIVE_TIME + 1) \<le> count_list ys SweepTick \<longrightarrow>
      m_lookup s' r = None)"
proof (intro conjI impI, rule controlBlockMonitoring_step_lookup)
  assume a: "m_lookup s0 = Map.empty \<and> run s0 xs = Inr s"
  then have "table_ok (m_lookup s0)" by (simp add: table_ok_def)
  moreover from a have "run s0 xs = Inr s" by simp
  ultimately have ok: "table_ok (m_lookup s)" by (rule run_table_ok)
  let ?ys = "replicate (nat (MAX_INACTIVE_TIME + 1)) SweepTick"
  have r: "run s ?ys = Inr ((controlBlockMonitoring_step ^^ nat (MAX_INACTIVE_TIME + 1)) s)"
    by (rule run_SweepTicks)
  have "\<forall>y\<in>set ?ys. \<not> heartbeat_of r y" by simp
  moreover have "nat (MAX_INACTIVE_TIME + 1) \<le> count_list ?ys SweepTick"
    by (simp add: count_list_replicate_same)
  ultimately have "m_lookup ((controlBlockMonitoring_step ^^ nat (MAX_INACTIVE_TIME + 1)) s) r = None"
    by (rule run_idle_removed [OF ok r])
  with r show "\<exists>s'. run s ?ys = Inr s' \<and> m_lookup s' r = None" by simp
next
  assume a: "m_lookup s0 = Map.empty \<and> run s0 xs = Inr s \<and> run s ys = Inr s' \<and>
    (\<forall>y\<in>set ys. \<not> heartbeat_of r y) \<and>
    nat (MAX_INACTIVE_TIME + 1) \<le> count_list ys SweepTick"
  then have "table_ok (m_lookup s0)" by (simp add: table_ok_def)
  moreover from a have "run s0 xs = Inr s" by simp
  ultimately have ok: "table_ok (m_lookup s)" by (rule run_table_ok)
  from a have "run s ys = Inr s'" "\<forall>y\<in>set ys. \<not> heartbeat_of r y"
      "nat (MAX_INACTIVE_TIME + 1) \<le> count_list ys SweepTick"
    by simp_all
  then show "m_lookup s' r = None" by (rule run_idle_removed [OF ok])
qed

theorem C7_witness:
  "run initial [OnInterest heartbeat_peerA] = Inr accepted_peerA \<and>
   m_lookup accepted_peerA ''peerA'' = Some \<lparr>minSeqNo = 0, maxSeqNo = 5, inactiveTime = 0\<rparr> \<and>
   m_lookup (controlBlockMonitoring_step accepted_peerA) ''peerA'' =
     Some \<lparr>minSeqNo = 0, maxSeqNo = 5, inactiveTime = 1\<rparr> \<and>
   (\<exists>s'. run accepted_peerA
            [SweepTick, SweepTick, SweepTick, SweepTick, SweepTick, SweepTick] = Inr s' \<and>
         m_lookup s' ''peerA'' = None) \<and>
   (\<exists>s'. run accepted_peerA
            [SweepTick, OnData (response 0 [144, 64, 90]),
             SweepTick, SweepTick, SweepTick, SweepTick, SweepTick] = Inr s' \<and>
         m_lookup s' ''peerA'' = None)"
proof -
  note C7 = C7_sweep_ticks_remove_idle_sessions
  have r: "run initial [OnInterest heartbeat_peerA] = Inr accepted_peerA"
    by (simp add: accepted_peerA_def)
  have e: "m_lookup initial = Map.empty" by (simp add: initial_def)
  have six: "replicate (nat (MAX_INACTIVE_TIME + 1)) SweepTick =
             [SweepTick, SweepTick, SweepTick, SweepTick, SweepTick, SweepTick]"
    by (simp add: MAX_INACTIVE_TIME_def eval_nat_numeral)
  have five: "[SweepTick, SweepTick, SweepTick, SweepTick, SweepTick] = replicate 5 SweepTick"
    by (simp add: eval_nat_numeral)
  let ?t = "controlBlockMonitoring_step accepted_peerA"
  let ?ys = "[SweepTick, OnData (response 0 [144, 64, 90]),
             SweepTick, SweepTick, SweepTick, SweepTick, SweepTick]"
  have one: "m_lookup ?t ''peerA'' = Some \<lparr>minSeqNo = 0, maxSeqNo = 5, inactiveTime = 1\<rparr>"
    using C7 [THEN conjunct1, of accepted_peerA "''peerA''"]
    by (simp add: accepted_peerA_eq MAX_INACTIVE_TIME_def)
  have "length (message ?t) = 3"
    by (simp add: controlBlockMonitoring_step_fields accepted_peerA_eq)
  with one onData_plays [of "response 0 [144, 64, 90]" 0 ?t
        "\<lparr>minSeqNo = 0, maxSeqNo = 5, inactiveTime = 1\<rparr>"]
  obtain s2 where s2: "onData (response 0 [144, 64, 90]) ?t = Inr s2"
    by (auto simp: response_def)
  have run_ys: "run accepted_peerA ?ys = Inr ((controlBlockMonitoring_step ^^ 5) s2)"
    unfolding five by (simp add: s2 run_SweepTicks)
  have "\<forall>y\<in>set ?ys. \<not> heartbeat_of ''peerA'' y" by simp
  moreover have "nat (MAX_INACTIVE_TIME + 1) \<le> count_list ?ys SweepTick"
    by (simp add: MAX_INACTIVE_TIME_def)
  ultimately have gone: "m_lookup ((controlBlockMonitoring_step ^^ 5) s2) ''peerA'' = None"
    using C7 [THEN conjunct2, THEN conjunct2, of initial "[OnInterest heartbeat_peerA]"
        accepted_peerA ?ys "(controlBlockMonitoring_step ^^ 5) s2" "''peerA''"] r e run_ys
    by blast
  from C7 [THEN conjunct2, THEN conjunct1, of initial "[OnInterest heartbeat_peerA]"
      accepted_peerA "''peerA''"] r e
  have "\<exists>s'. run accepted_peerA
            [SweepTick, SweepTick, SweepTick, SweepTick, SweepTick, SweepTick] = Inr s' \<and>
         m_lookup s' ''peerA'' = None"
    unfolding six by blast
  with r one gone run_ys show ?thesis
    by (simp add: accepted_peerA_eq)
qed

end
